theory Spec2Isabelle
  imports Complex_Main
begin

section \<open>The simulation engine of \<^verbatim>\<open>manual_cyber_game(non-interface).py\<close>\<close>

text \<open>
  The engine is embedded as pure functions over one record \<open>game\<close> that holds the three
  objects every resolver receives (\<^verbatim>\<open>att\<close>, \<^verbatim>\<open>dfn\<close>, \<^verbatim>\<open>nodes\<close>) and the
  process-wide random generator.

  \<^item> Python floats are idealised as exact rationals (\<open>rat\<close>): rounding is not modelled.
  \<^item> The generator is a fixed stream of draws \<open>rng_draws\<close> and a read position
    \<open>rng_pos\<close>; \<^verbatim>\<open>random.random()\<close> returns the draw at the position and advances it,
    so "no draw consumed" is "\<open>rng_pos\<close> unchanged".
  \<^item> A dict lookup \<^verbatim>\<open>nodes[k]\<close> on a missing key raises \<^verbatim>\<open>KeyError\<close>, and a float
    division by zero raises \<^verbatim>\<open>ZeroDivisionError\<close>: results are \<open>error + _\<close>. The
    state at the moment of the raise is not returned.
  \<^item> \<^verbatim>\<open>dfn.patch_level\<close> is a \<^verbatim>\<open>defaultdict(lambda: 0)\<close>: reading a missing key
    inserts it with 0.
  \<^item> The f-string messages are a datatype, one constructor per message text, carrying
    the values the text interpolates. \<^verbatim>\<open>print\<close> is not modelled.
  \<^item> The loosely typed pair \<^verbatim>\<open>(key, target)\<close> is a datatype with one constructor per
    key and the target shape \<^verbatim>\<open>choose_attacker_actions\<close> / \<^verbatim>\<open>choose_defender_actions\<close>
    build for it, and one constructor for any other key (the final \<^verbatim>\<open>else\<close>).
\<close>

subsection \<open>Data\<close>

record node =
  node_value :: int
  exposure :: rat
  is_compromised :: bool

record attacker =
  funds :: int
  skill :: rat
  influence :: rat
  members :: int
  compromised :: "string set"
  exfiltrated_value :: int

record defender =
  budget :: int
  patch_level :: "string \<rightharpoonup> int"
  monitoring :: rat
  awareness :: rat
  isolated :: "string set"
  honeypots :: "string set"

record game =
  att :: attacker
  dfn :: defender
  nodes :: "string \<rightharpoonup> node"
  rng_draws :: "nat \<Rightarrow> rat"
  rng_pos :: nat

datatype error = KeyError string | ZeroDivisionError

datatype message =
    Recon_result string bool rat bool rat
  | Social_result string bool rat bool rat
  | Recruit_success
  | Recruit_failed
  | Exploit_aborted string
  | Exploit_result string bool rat bool rat bool
  | Lateral_source_not_compromised string string
  | Lateral_not_adjacent string string
  | Lateral_result string string bool rat bool rat
  | Exfiltrate_not_compromised string
  | Exfiltrate_result string bool rat bool rat int
  | Harden_not_compromised string
  | Harden_result string
  | Unknown_attacker_action string
  | Patch_failed
  | Patch_success string int rat
  | Monitoring_failed
  | Monitoring_increased rat
  | Awareness_failed
  | Awareness_run rat
  | Isolate_failed
  | Isolate_success string
  | Honeypot_failed
  | Honeypot_deployed string
  | Forensic_failed
  | Forensic_success "string list"
  | Forensic_no_findings
  | Unknown_defender_action string

datatype attacker_action =
    Recon string
  | Social
  | Recruit
  | Exploit string
  | Lateral string string
  | Exfiltrate string
  | Harden string
  | Other_attacker_key string

datatype defender_action =
    Patch string
  | Monitor
  | Awareness
  | Isolate string
  | Honeypot string
  | Forensic
  | Other_defender_key string

subsection \<open>Configuration\<close>

definition TOPOLOGY :: "(string \<times> string list) list" where
  "TOPOLOGY =
    [(''Internet'', [''Firewall'']),
     (''Firewall'', [''Internet'', ''DMZ'']),
     (''DMZ'', [''Firewall'', ''CorpLAN'']),
     (''CorpLAN'', [''DMZ'', ''Admin'', ''Insider'', ''SIEM'']),
     (''Admin'', [''CorpLAN'']),
     (''SIEM'', [''CorpLAN'']),
     (''Insider'', [''CorpLAN''])]"

text \<open>\<^verbatim>\<open>TOPOLOGY.get(k, [])\<close>.\<close>

definition TOPOLOGY_get :: "string \<Rightarrow> string list" where
  "TOPOLOGY_get k = (case map_of TOPOLOGY k of None \<Rightarrow> [] | Some adj \<Rightarrow> adj)"

definition BASE_NODES :: "(string \<times> node) list" where
  "BASE_NODES =
    [(''Internet'', \<lparr>node_value = 0, exposure = 1, is_compromised = False\<rparr>),
     (''Firewall'', \<lparr>node_value = 5, exposure = 20 / 100, is_compromised = False\<rparr>),
     (''DMZ'', \<lparr>node_value = 10, exposure = 40 / 100, is_compromised = False\<rparr>),
     (''CorpLAN'', \<lparr>node_value = 20, exposure = 60 / 100, is_compromised = False\<rparr>),
     (''Admin'', \<lparr>node_value = 30, exposure = 30 / 100, is_compromised = False\<rparr>),
     (''SIEM'', \<lparr>node_value = 15, exposure = 25 / 100, is_compromised = False\<rparr>),
     (''Insider'', \<lparr>node_value = 8, exposure = 50 / 100, is_compromised = False\<rparr>)]"

definition deep_copy_nodes :: "string \<rightharpoonup> node" where
  "deep_copy_nodes = map_of BASE_NODES"

text \<open>\<^verbatim>\<open>Attacker.__init__\<close> and \<^verbatim>\<open>Defender.__init__\<close>.\<close>

definition Attacker_init :: attacker where
  "Attacker_init =
    \<lparr>funds = 50, skill = 5, influence = 1, members = 1, compromised = {},
     exfiltrated_value = 0\<rparr>"

definition Defender_init :: defender where
  "Defender_init =
    \<lparr>budget = 60, patch_level = Map.empty, monitoring = 1, awareness = 1, isolated = {},
     honeypots = {}\<rparr>"

text \<open>The state \<^verbatim>\<open>main\<close> builds before the first turn, over a given stream of draws.\<close>

definition new_game :: "(nat \<Rightarrow> rat) \<Rightarrow> game" where
  "new_game ds =
    \<lparr>att = Attacker_init, dfn = Defender_init, nodes = deep_copy_nodes, rng_draws = ds,
     rng_pos = 0\<rparr>"

subsection \<open>Primitives\<close>

text \<open>\<^verbatim>\<open>random.random()\<close>.\<close>

definition random_random :: "game \<Rightarrow> rat \<times> game" where
  "random_random s = (rng_draws s (rng_pos s), s\<lparr>rng_pos := Suc (rng_pos s)\<rparr>)"

text \<open>\<^verbatim>\<open>random.uniform(a, b)\<close> is \<^verbatim>\<open>a + (b - a) * random()\<close>.\<close>

definition random_uniform :: "rat \<Rightarrow> rat \<Rightarrow> game \<Rightarrow> rat \<times> game" where
  "random_uniform a b s = (let (r, s1) = random_random s in (a + (b - a) * r, s1))"

text \<open>\<^verbatim>\<open>int(x)\<close> on a float truncates towards zero.\<close>

definition py_int :: "rat \<Rightarrow> int" where
  "py_int x = (if 0 \<le> x then \<lfloor>x\<rfloor> else \<lceil>x\<rceil>)"

text \<open>\<^verbatim>\<open>dfn.patch_level[k]\<close> read: the default dict stores 0 under a missing key.\<close>

definition patch_level_read :: "string \<Rightarrow> game \<Rightarrow> int \<times> game" where
  "patch_level_read k s =
    (case patch_level (dfn s) k of
       Some v \<Rightarrow> (v, s)
     | None \<Rightarrow> (0, s\<lparr>dfn := (dfn s)\<lparr>patch_level := (patch_level (dfn s))(k \<mapsto> 0)\<rparr>\<rparr>))"

definition chance_success ::
  "rat \<Rightarrow> rat \<Rightarrow> int \<Rightarrow> rat \<Rightarrow> game \<Rightarrow> (bool \<times> rat \<times> rat) \<times> game" where
  "chance_success base_prob attacker_skill defender_patch modifiers s =
    (let skill_factor = 1 + attacker_skill / 10;
         patch_factor = max 0 (1 - of_int defender_patch / 12);
         p = base_prob * skill_factor * modifiers * patch_factor;
         p = max 0 (min (95 / 100) p);
         (roll, s1) = random_random s
     in ((roll < p, p, roll), s1))"

definition detection_check :: "rat \<Rightarrow> rat \<Rightarrow> rat \<Rightarrow> game \<Rightarrow> (bool \<times> rat \<times> rat) \<times> game" where
  "detection_check base_detection defender_monitoring stealth_mod s =
    (let p = base_detection * defender_monitoring * stealth_mod;
         p = max 0 (min (99 / 100) p);
         (roll, s1) = random_random s
     in ((roll < p, p, roll), s1))"

subsection \<open>Attacker actions\<close>

definition act_recon :: "game \<Rightarrow> string \<Rightarrow> error + ((message \<times> bool) \<times> game)" where
  "act_recon s node =
    (let base = 6 / 10;
         (pl, s1) = patch_level_read node s;
         ((succ, p, r), s2) = chance_success base (skill (att s1)) pl 1 s1;
         ((det, dp, dr), s3) = detection_check (5 / 100) (monitoring (dfn s2)) (8 / 10) s2
     in if succ then
          (case nodes s3 node of
             None \<Rightarrow> Inl (KeyError node)
           | Some d \<Rightarrow>
               Inr ((Recon_result node succ p det dp, det),
                    s3\<lparr>nodes := (nodes s3)(node \<mapsto> d\<lparr>exposure := min 1 (exposure d + 1 / 10)\<rparr>)\<rparr>))
        else Inr ((Recon_result node succ p det dp, det), s3))"

definition act_social :: "game \<Rightarrow> string \<Rightarrow> error + ((message \<times> bool) \<times> game)" where
  "act_social s node =
    (let base = 35 / 100 * influence (att s);
         (pl, s1) = patch_level_read node s
     in if awareness (dfn s1) = 0 then Inl ZeroDivisionError
        else
          let ((succ, p, r), s2) = chance_success base (skill (att s1)) pl (1 / awareness (dfn s1)) s1;
              ((det, dp, dr), s3) = detection_check (15 / 100) (monitoring (dfn s2)) (12 / 10) s2
          in if succ then
               (case nodes s3 node of
                  None \<Rightarrow> Inl (KeyError node)
                | Some d \<Rightarrow>
                    Inr ((Social_result node succ p det dp, det),
                         s3\<lparr>nodes := (nodes s3)(node \<mapsto> d\<lparr>is_compromised := True\<rparr>),
                            att := (att s3)\<lparr>compromised := insert node (compromised (att s3))\<rparr>\<rparr>))
             else Inr ((Social_result node succ p det dp, det), s3))"

definition act_recruit :: "game \<Rightarrow> error + ((message \<times> bool) \<times> game)" where
  "act_recruit s =
    (let cost = 15 in
     if funds (att s) \<ge> cost then
       Inr ((Recruit_success, False),
            s\<lparr>att := (att s)\<lparr>funds := funds (att s) - cost,
                              members := members (att s) + 1,
                              skill := skill (att s) + 1\<rparr>\<rparr>)
     else Inr ((Recruit_failed, False), s))"

definition act_exploit :: "game \<Rightarrow> string \<Rightarrow> error + ((message \<times> bool) \<times> game)" where
  "act_exploit s target =
    (if target \<in> isolated (dfn s) then Inr ((Exploit_aborted target, False), s)
     else
       (case nodes s target of
          None \<Rightarrow> Inl (KeyError target)
        | Some d \<Rightarrow>
            let base = exposure d;
                adj_compromised = list_ex (\<lambda>adj. adj \<in> compromised (att s)) (TOPOLOGY_get target);
                modf = (if adj_compromised then 13 / 10 else 1);
                (pl, s1) = patch_level_read target s;
                ((succ, p, r), s2) = chance_success base (skill (att s1)) pl modf s1;
                ((det, dp, dr), s3) =
                   detection_check (1 / 10 + of_int (node_value d) / 100) (monitoring (dfn s2)) (9 / 10) s2
            in if succ then
                 Inr ((Exploit_result target succ p det dp adj_compromised, det),
                      s3\<lparr>nodes := (nodes s3)(target \<mapsto> d\<lparr>is_compromised := True\<rparr>),
                         att := (att s3)\<lparr>compromised := insert target (compromised (att s3))\<rparr>\<rparr>)
               else Inr ((Exploit_result target succ p det dp adj_compromised, det), s3)))"

definition act_lateral :: "game \<Rightarrow> string \<Rightarrow> string \<Rightarrow> error + ((message \<times> bool) \<times> game)" where
  "act_lateral s src dst =
    (if src \<notin> compromised (att s) then Inr ((Lateral_source_not_compromised src dst, False), s)
     else if dst \<notin> set (TOPOLOGY_get src) then Inr ((Lateral_not_adjacent src dst, False), s)
     else
       (case nodes s dst of
          None \<Rightarrow> Inl (KeyError dst)
        | Some d \<Rightarrow>
            let base = 4 / 10 + exposure d * (3 / 10);
                (pl, s1) = patch_level_read dst s;
                ((succ, p, r), s2) = chance_success base (skill (att s1)) pl 1 s1;
                ((det, dp, dr), s3) = detection_check (12 / 100) (monitoring (dfn s2)) 1 s2
            in if succ then
                 Inr ((Lateral_result src dst succ p det dp, det),
                      s3\<lparr>nodes := (nodes s3)(dst \<mapsto> d\<lparr>is_compromised := True\<rparr>),
                         att := (att s3)\<lparr>compromised := insert dst (compromised (att s3))\<rparr>\<rparr>)
               else Inr ((Lateral_result src dst succ p det dp, det), s3)))"

definition act_exfiltrate :: "game \<Rightarrow> string \<Rightarrow> error + ((message \<times> bool) \<times> game)" where
  "act_exfiltrate s node =
    (if node \<notin> compromised (att s) then Inr ((Exfiltrate_not_compromised node, False), s)
     else
       let (pl, s1) = patch_level_read node s;
           ((succ, p, r), s2) = chance_success (5 / 10) (skill (att s1)) pl 1 s1
       in (case nodes s2 node of
             None \<Rightarrow> Inl (KeyError node)
           | Some d \<Rightarrow>
               let ((det, dp, dr), s3) =
                     detection_check (25 / 100 + of_int (node_value d) / 100) (monitoring (dfn s2)) 1 s2
               in if succ then
                    let (u, s4) = random_uniform (5 / 10) 1 s3;
                        gained = py_int (of_int (node_value d) * u)
                    in Inr ((Exfiltrate_result node succ p det dp gained, det),
                            s4\<lparr>att := (att s4)\<lparr>exfiltrated_value := exfiltrated_value (att s4) + gained,
                                               funds := funds (att s4) + py_int (of_int gained * (5 / 10))\<rparr>\<rparr>)
                  else Inr ((Exfiltrate_result node succ p det dp 0, det), s3)))"

definition act_harden :: "game \<Rightarrow> string \<Rightarrow> error + ((message \<times> bool) \<times> game)" where
  "act_harden s node =
    (if node \<notin> compromised (att s) then Inr ((Harden_not_compromised node, False), s)
     else Inr ((Harden_result node, False), s\<lparr>att := (att s)\<lparr>skill := skill (att s) + 2 / 10\<rparr>\<rparr>))"

subsection \<open>Defender actions\<close>

definition def_patch :: "game \<Rightarrow> string \<Rightarrow> error + (message \<times> game)" where
  "def_patch s node =
    (let cost = 8 in
     if budget (dfn s) < cost then Inr (Patch_failed, s)
     else
       let s1 = s\<lparr>dfn := (dfn s)\<lparr>budget := budget (dfn s) - cost\<rparr>\<rparr>;
           (pl, s2) = patch_level_read node s1;
           new_pl = min 10 (pl + 2);
           s3 = s2\<lparr>dfn := (dfn s2)\<lparr>patch_level := (patch_level (dfn s2))(node \<mapsto> new_pl)\<rparr>\<rparr>
       in (case nodes s3 node of
             None \<Rightarrow> Inl (KeyError node)
           | Some d \<Rightarrow>
               let new_exp = max (5 / 100) (exposure d - 15 / 100)
               in Inr (Patch_success node new_pl new_exp,
                       s3\<lparr>nodes := (nodes s3)(node \<mapsto> d\<lparr>exposure := new_exp\<rparr>)\<rparr>)))"

definition def_monitor :: "game \<Rightarrow> error + (message \<times> game)" where
  "def_monitor s =
    (let cost = 6 in
     if budget (dfn s) < cost then Inr (Monitoring_failed, s)
     else
       let new_mon = min 3 (monitoring (dfn s) + 3 / 10)
       in Inr (Monitoring_increased new_mon,
               s\<lparr>dfn := (dfn s)\<lparr>budget := budget (dfn s) - cost, monitoring := new_mon\<rparr>\<rparr>))"

definition def_awareness :: "game \<Rightarrow> error + (message \<times> game)" where
  "def_awareness s =
    (let cost = 10 in
     if budget (dfn s) < cost then Inr (Awareness_failed, s)
     else
       let new_aw = max (5 / 10) (awareness (dfn s) - 2 / 10)
       in Inr (Awareness_run new_aw,
               s\<lparr>dfn := (dfn s)\<lparr>budget := budget (dfn s) - cost, awareness := new_aw\<rparr>\<rparr>))"

definition def_isolate :: "game \<Rightarrow> string \<Rightarrow> error + (message \<times> game)" where
  "def_isolate s node =
    (let cost = 12 in
     if budget (dfn s) < cost then Inr (Isolate_failed, s)
     else
       let s1 = s\<lparr>dfn := (dfn s)\<lparr>budget := budget (dfn s) - cost,
                                  isolated := insert node (isolated (dfn s))\<rparr>\<rparr>
       in (case nodes s1 node of
             None \<Rightarrow> Inl (KeyError node)
           | Some d \<Rightarrow>
               if is_compromised d then
                 Inr (Isolate_success node, s1\<lparr>nodes := (nodes s1)(node \<mapsto> d\<lparr>is_compromised := False\<rparr>)\<rparr>)
               else Inr (Isolate_success node, s1)))"

definition def_honeypot :: "game \<Rightarrow> string \<Rightarrow> error + (message \<times> game)" where
  "def_honeypot s node =
    (let cost = 7 in
     if budget (dfn s) < cost then Inr (Honeypot_failed, s)
     else
       Inr (Honeypot_deployed node,
            s\<lparr>dfn := (dfn s)\<lparr>budget := budget (dfn s) - cost,
                              honeypots := insert node (honeypots (dfn s))\<rparr>\<rparr>))"

text \<open>
  The eviction loop of \<^verbatim>\<open>def_forensic\<close>:
  \<^verbatim>\<open>for node in list(att.compromised)[:rem_ct]: nodes[node]['is_compromised'] = False;
  att.compromised.discard(node); removed.append(node)\<close>.
\<close>

fun evict :: "string list \<Rightarrow> game \<Rightarrow> string list \<Rightarrow> error + (game \<times> string list)" where
  "evict [] s removed = Inr (s, removed)"
| "evict (node # rest) s removed =
    (case nodes s node of
       None \<Rightarrow> Inl (KeyError node)
     | Some d \<Rightarrow>
         evict rest
           (s\<lparr>nodes := (nodes s)(node \<mapsto> d\<lparr>is_compromised := False\<rparr>),
              att := (att s)\<lparr>compromised := compromised (att s) - {node}\<rparr>\<rparr>)
           (removed @ [node]))"

text \<open>
  Python leaves the iteration order of a set unspecified, so the value of
  \<^verbatim>\<open>list(att.compromised)\<close> is the parameter \<open>listing\<close>: some list without repetitions
  of exactly the members of \<open>compromised (att s)\<close>.
\<close>

definition def_forensic :: "string list \<Rightarrow> game \<Rightarrow> error + (message \<times> game)" where
  "def_forensic listing s =
    (let cost = 10 in
     if budget (dfn s) < cost then Inr (Forensic_failed, s)
     else
       let s1 = s\<lparr>dfn := (dfn s)\<lparr>budget := budget (dfn s) - cost\<rparr>\<rparr>;
           compromised_count = int (card (compromised (att s1)));
           base = 4 / 10 + 5 / 100 * of_int compromised_count;
           p = min (9 / 10) (base * monitoring (dfn s1));
           (r, s2) = random_random s1;
           succ = (r < p)
       in if succ \<and> compromised_count \<noteq> 0 then
            let rem_ct = max 1 (compromised_count div 2)
            in (case evict (take (nat rem_ct) listing) s2 [] of
                  Inl e \<Rightarrow> Inl e
                | Inr (s3, removed) \<Rightarrow>
                    Inr (Forensic_success removed,
                         s3\<lparr>att := (att s3)\<lparr>funds := max 0 (funds (att s3) - 10),
                                            skill := max 1 (skill (att s3) - 5 / 10)\<rparr>\<rparr>))
          else Inr (Forensic_no_findings, s2))"

subsection \<open>Dispatch\<close>

text \<open>
  The \<^verbatim>\<open>if/elif\<close> chain of \<^verbatim>\<open>resolve_attacker_action\<close>, which yields \<^verbatim>\<open>msg, det\<close>;
  \<^verbatim>\<open>act_social\<close> is called with its default node.
\<close>

fun attacker_dispatch :: "attacker_action \<Rightarrow> game \<Rightarrow> error + ((message \<times> bool) \<times> game)" where
  "attacker_dispatch (Recon target) s = act_recon s target"
| "attacker_dispatch Social s = act_social s ''Insider''"
| "attacker_dispatch Recruit s = act_recruit s"
| "attacker_dispatch (Exploit target) s = act_exploit s target"
| "attacker_dispatch (Lateral src dst) s = act_lateral s src dst"
| "attacker_dispatch (Exfiltrate target) s = act_exfiltrate s target"
| "attacker_dispatch (Harden target) s = act_harden s target"
| "attacker_dispatch (Other_attacker_key key) s = Inr ((Unknown_attacker_action key, False), s)"

text \<open>The detection pulse: \<^verbatim>\<open>if det: dfn.monitoring = min(3.0, dfn.monitoring + 0.1)\<close>.\<close>

definition detection_pulse :: "bool \<Rightarrow> game \<Rightarrow> game" where
  "detection_pulse det s =
    (if det then s\<lparr>dfn := (dfn s)\<lparr>monitoring := min 3 (monitoring (dfn s) + 1 / 10)\<rparr>\<rparr> else s)"

definition resolve_attacker_action :: "attacker_action \<Rightarrow> game \<Rightarrow> error + (message \<times> game)" where
  "resolve_attacker_action a s =
    (case attacker_dispatch a s of
       Inl e \<Rightarrow> Inl e
     | Inr ((msg, det), s1) \<Rightarrow> Inr (msg, detection_pulse det s1))"

fun resolve_defender_action ::
  "defender_action \<Rightarrow> string list \<Rightarrow> game \<Rightarrow> error + (message \<times> game)" where
  "resolve_defender_action (Patch target) listing s = def_patch s target"
| "resolve_defender_action Monitor listing s = def_monitor s"
| "resolve_defender_action Awareness listing s = def_awareness s"
| "resolve_defender_action (Isolate target) listing s = def_isolate s target"
| "resolve_defender_action (Honeypot target) listing s = def_honeypot s target"
| "resolve_defender_action Forensic listing s = def_forensic listing s"
| "resolve_defender_action (Other_defender_key key) listing s = Inr (Unknown_defender_action key, s)"

subsection \<open>Specification-side definitions and example states\<close>


text \<open>
  A state with one foothold: the attacker holds the Firewall and has 5 funds left,
  the defender has isolated the DMZ.
\<close>

definition example_game :: game where
  "example_game =
    (new_game (\<lambda>_. 0))
      \<lparr>att := Attacker_init\<lparr>funds := 5, compromised := {''Firewall''}\<rparr>,
       dfn := Defender_init\<lparr>isolated := {''DMZ''}\<rparr>,
       nodes := deep_copy_nodes(''Firewall'' \<mapsto> \<lparr>node_value = 5, exposure = 20 / 100, is_compromised = True\<rparr>)\<rparr>"

text \<open>
  A state in which the attacker holds the DMZ, the CorpLAN and the Admin node, with the
  starting resources on both sides.
\<close>

definition foothold_game :: game where
  "foothold_game =
    (new_game (\<lambda>_. 0))
      \<lparr>att := Attacker_init\<lparr>compromised := {''DMZ'', ''CorpLAN'', ''Admin''}\<rparr>,
       nodes := deep_copy_nodes
         (''DMZ'' \<mapsto> \<lparr>node_value = 10, exposure = 40 / 100, is_compromised = True\<rparr>,
          ''CorpLAN'' \<mapsto> \<lparr>node_value = 20, exposure = 60 / 100, is_compromised = True\<rparr>,
          ''Admin'' \<mapsto> \<lparr>node_value = 30, exposure = 30 / 100, is_compromised = True\<rparr>)\<rparr>"

text \<open>
  The bounds of section 8 of the specification ("Monotonicity"): no stored patch level
  exceeds 10, monitoring lies in \<open>[1, 3]\<close> and every exposure in \<open>[0, 1]\<close>.
\<close>

definition bounds_ok :: "game \<Rightarrow> bool" where
  "bounds_ok s \<longleftrightarrow>
     (\<forall>k v. patch_level (dfn s) k = Some v \<longrightarrow> v \<le> 10) \<and>
     1 \<le> monitoring (dfn s) \<and> monitoring (dfn s) \<le> 3 \<and>
     (\<forall>k d. nodes s k = Some d \<longrightarrow> 0 \<le> exposure d \<and> exposure d \<le> 1)"

text \<open>
  What the engine relies on from its environment: node values are non-negative (as in
  \<open>BASE_NODES\<close>; no action writes them) and every draw of \<^verbatim>\<open>random.random()\<close> lies in
  \<open>[0, 1)\<close>.
\<close>

definition registry_ok :: "game \<Rightarrow> bool" where
  "registry_ok s \<longleftrightarrow>
     (\<forall>k d. nodes s k = Some d \<longrightarrow> 0 \<le> node_value d) \<and>
     (\<forall>i. 0 \<le> rng_draws s i \<and> rng_draws s i < 1)"

text \<open>
  Set/flag consistency as section 8 of the specification words it: for every node of the
  registry, the node's flag is set exactly when its name is in the attacker's compromised
  set.
\<close>

definition flags_consistent :: "game \<Rightarrow> bool" where
  "flags_consistent s \<longleftrightarrow>
     (\<forall>n d. nodes s n = Some d \<longrightarrow> is_compromised d = (n \<in> compromised (att s)))"

subsection \<open>Sequences of resolved actions\<close>

text \<open>
  The resolved actions of a game, in order. \<^verbatim>\<open>main\<close> runs
  \<^verbatim>\<open>for key, target in a_actions: resolve_attacker_action(key, target, att, dfn, nodes)\<close>
  and the same loop over \<^verbatim>\<open>d_actions\<close>, turn after turn; its opportunistic exfiltrate is
  \<^verbatim>\<open>act_exfiltrate\<close> followed by the same detection pulse, that is the attacker action
  \<open>Exfiltrate\<close>, and its immediate forensic response is the defender action \<open>Forensic\<close>.
  An exception ends the run. A defender action carries the value of
  \<^verbatim>\<open>list(att.compromised)\<close> that \<open>def_forensic\<close> would see.
\<close>

datatype engine_action =
    Attacker_action attacker_action
  | Defender_action defender_action "string list"

fun resolve_actions :: "engine_action list \<Rightarrow> game \<Rightarrow> error + game" where
  "resolve_actions [] s = Inr s"
| "resolve_actions (Attacker_action a # rest) s =
    (case resolve_attacker_action a s of
       Inl e \<Rightarrow> Inl e
     | Inr (msg, s1) \<Rightarrow> resolve_actions rest s1)"
| "resolve_actions (Defender_action d listing # rest) s =
    (case resolve_defender_action d listing s of
       Inl e \<Rightarrow> Inl e
     | Inr (msg, s1) \<Rightarrow> resolve_actions rest s1)"

subsection \<open>Roll outcomes\<close>

text \<open>
  The triples that \<open>chance_success\<close> and \<open>detection_check\<close> return, as functions of the
  draw they consume: the same computation with \<^verbatim>\<open>random.random()\<close> taken out.
\<close>

definition success_roll :: "rat \<Rightarrow> rat \<Rightarrow> int \<Rightarrow> rat \<Rightarrow> rat \<Rightarrow> bool \<times> rat \<times> rat" where
  "success_roll base_prob attacker_skill defender_patch modifiers roll =
    (let skill_factor = 1 + attacker_skill / 10;
         patch_factor = max 0 (1 - of_int defender_patch / 12);
         p = base_prob * skill_factor * modifiers * patch_factor;
         p = max 0 (min (95 / 100) p)
     in (roll < p, p, roll))"

definition detection_roll :: "rat \<Rightarrow> rat \<Rightarrow> rat \<Rightarrow> rat \<Rightarrow> bool \<times> rat \<times> rat" where
  "detection_roll base_detection defender_monitoring stealth_mod roll =
    (let p = base_detection * defender_monitoring * stealth_mod;
         p = max 0 (min (99 / 100) p)
     in (roll < p, p, roll))"

section \<open>Properties\<close>

subsection \<open>Projections of the primitives\<close>

lemmas act_defs =
  act_recon_def act_social_def act_recruit_def act_exploit_def act_lateral_def
  act_exfiltrate_def act_harden_def

lemmas config_defs =
  new_game_def Attacker_init_def Defender_init_def deep_copy_nodes_def BASE_NODES_def
  TOPOLOGY_get_def TOPOLOGY_def

lemma snd_random_random [simp]: "snd (random_random s) = s\<lparr>rng_pos := Suc (rng_pos s)\<rparr>"
  by (simp add: random_random_def)

lemma fst_random_random [simp]: "fst (random_random s) = rng_draws s (rng_pos s)"
  by (simp add: random_random_def)

lemma snd_random_uniform [simp]: "snd (random_uniform a b s) = s\<lparr>rng_pos := Suc (rng_pos s)\<rparr>"
  by (simp add: random_uniform_def split_def)

lemma fst_random_uniform [simp]:
  "fst (random_uniform a b s) = a + (b - a) * rng_draws s (rng_pos s)"
  by (simp add: random_uniform_def split_def)

lemma snd_chance_success [simp]:
  "snd (chance_success b sk pl m s) = s\<lparr>rng_pos := Suc (rng_pos s)\<rparr>"
  by (simp add: chance_success_def split_def Let_def)

lemma snd_detection_check [simp]:
  "snd (detection_check b mon st s) = s\<lparr>rng_pos := Suc (rng_pos s)\<rparr>"
  by (simp add: detection_check_def split_def Let_def)

lemma fst_patch_level_read:
  "fst (patch_level_read k s) = (case patch_level (dfn s) k of None \<Rightarrow> 0 | Some v \<Rightarrow> v)"
  by (simp add: patch_level_read_def split: option.splits)

lemma snd_patch_level_read [simp]:
  "snd (patch_level_read k s) =
     s\<lparr>dfn := (dfn s)\<lparr>patch_level := (patch_level (dfn s))(k \<mapsto> fst (patch_level_read k s))\<rparr>\<rparr>"
  by (simp add: patch_level_read_def map_upd_triv split: option.splits)


subsection \<open>Precondition and resource failures (C3)\<close>

text \<open>
  C3. Every attacker action whose precondition or resource check fails (exploit on an
  isolated target, lateral from a source that is not compromised or to a destination that
  is not adjacent, exfiltrate or harden on a node that is not compromised, recruit with
  funds below 15) returns its failure message with \<open>detected = False\<close> and the state it
  was given: attacker, defender, registry and the generator's position are all unchanged,
  both for the action function and for \<open>resolve_attacker_action\<close>.
\<close>

theorem precondition_failure_short_circuits:
  "(target \<in> isolated (dfn s) \<longrightarrow>
      attacker_dispatch (Exploit target) s = Inr ((Exploit_aborted target, False), s) \<and>
      resolve_attacker_action (Exploit target) s = Inr (Exploit_aborted target, s)) \<and>
   (src \<notin> compromised (att s) \<longrightarrow>
      attacker_dispatch (Lateral src dst) s =
        Inr ((Lateral_source_not_compromised src dst, False), s) \<and>
      resolve_attacker_action (Lateral src dst) s =
        Inr (Lateral_source_not_compromised src dst, s)) \<and>
   (src \<in> compromised (att s) \<and> dst \<notin> set (TOPOLOGY_get src) \<longrightarrow>
      attacker_dispatch (Lateral src dst) s = Inr ((Lateral_not_adjacent src dst, False), s) \<and>
      resolve_attacker_action (Lateral src dst) s = Inr (Lateral_not_adjacent src dst, s)) \<and>
   (node \<notin> compromised (att s) \<longrightarrow>
      attacker_dispatch (Exfiltrate node) s = Inr ((Exfiltrate_not_compromised node, False), s) \<and>
      resolve_attacker_action (Exfiltrate node) s = Inr (Exfiltrate_not_compromised node, s) \<and>
      attacker_dispatch (Harden node) s = Inr ((Harden_not_compromised node, False), s) \<and>
      resolve_attacker_action (Harden node) s = Inr (Harden_not_compromised node, s)) \<and>
   (funds (att s) < 15 \<longrightarrow>
      attacker_dispatch Recruit s = Inr ((Recruit_failed, False), s) \<and>
      resolve_attacker_action Recruit s = Inr (Recruit_failed, s))"
  by (simp add: resolve_attacker_action_def act_defs detection_pulse_def)

theorem precondition_failure_witness:
  "''DMZ'' \<in> isolated (dfn example_game) \<and>
   resolve_attacker_action (Exploit ''DMZ'') example_game =
     Inr (Exploit_aborted ''DMZ'', example_game) \<and>
   ''DMZ'' \<notin> compromised (att example_game) \<and>
   resolve_attacker_action (Lateral ''DMZ'' ''CorpLAN'') example_game =
     Inr (Lateral_source_not_compromised ''DMZ'' ''CorpLAN'', example_game) \<and>
   ''Firewall'' \<in> compromised (att example_game) \<and>
   ''Admin'' \<notin> set (TOPOLOGY_get ''Firewall'') \<and>
   resolve_attacker_action (Lateral ''Firewall'' ''Admin'') example_game =
     Inr (Lateral_not_adjacent ''Firewall'' ''Admin'', example_game) \<and>
   ''Admin'' \<notin> compromised (att example_game) \<and>
   resolve_attacker_action (Exfiltrate ''Admin'') example_game =
     Inr (Exfiltrate_not_compromised ''Admin'', example_game) \<and>
   resolve_attacker_action (Harden ''Admin'') example_game =
     Inr (Harden_not_compromised ''Admin'', example_game) \<and>
   funds (att example_game) < 15 \<and>
   resolve_attacker_action Recruit example_game = Inr (Recruit_failed, example_game)"
proof -
  have iso: "''DMZ'' \<in> isolated (dfn example_game)"
    and src: "''DMZ'' \<notin> compromised (att example_game)"
    and fw: "''Firewall'' \<in> compromised (att example_game)"
    and adm: "''Admin'' \<notin> compromised (att example_game)"
    and poor: "funds (att example_game) < 15"
    by (simp_all add: example_game_def config_defs)
  have nadj: "''Admin'' \<notin> set (TOPOLOGY_get ''Firewall'')"
    by (simp add: config_defs)
  show ?thesis
    using iso src fw adm poor nadj
      precondition_failure_short_circuits
        [of "''DMZ''" example_game "''DMZ''" "''CorpLAN''" "''Admin''"]
      precondition_failure_short_circuits
        [of "''DMZ''" example_game "''Firewall''" "''Admin''" "''Admin''"]
    by simp
qed

subsection \<open>The success roll (C5)\<close>


subsection \<open>Recruiting (C7)\<close>

text \<open>
  C7. From funds 50, members 1 and skill 5.0, five calls of \<open>act_recruit\<close> succeed on the
  first three (funds 50, 35, 20, 5) and fail on the fourth and fifth; members end at 4 and
  skill at 8.0, never detected, and the generator's position never moves.
\<close>

theorem recruit_five_times:
  assumes "funds (att s) = 50" and "members (att s) = 1" and "skill (att s) = 5"
  shows "\<exists>s1 s2 s3.
     act_recruit s = Inr ((Recruit_success, False), s1) \<and> funds (att s1) = 35 \<and>
     act_recruit s1 = Inr ((Recruit_success, False), s2) \<and> funds (att s2) = 20 \<and>
     act_recruit s2 = Inr ((Recruit_success, False), s3) \<and> funds (att s3) = 5 \<and>
     act_recruit s3 = Inr ((Recruit_failed, False), s3) \<and>
     members (att s3) = 4 \<and> skill (att s3) = 8 \<and>
     rng_pos s1 = rng_pos s \<and> rng_pos s2 = rng_pos s \<and> rng_pos s3 = rng_pos s \<and>
     s3 = s\<lparr>att := (att s)\<lparr>funds := 5, members := 4, skill := 8\<rparr>\<rparr>"
  using assms by (simp add: act_recruit_def)

theorem recruit_five_times_witness:
  "funds (att (new_game (\<lambda>_. 0))) = 50 \<and> members (att (new_game (\<lambda>_. 0))) = 1 \<and>
   skill (att (new_game (\<lambda>_. 0))) = 5 \<and>
   (\<exists>s1 s2 s3.
     act_recruit (new_game (\<lambda>_. 0)) = Inr ((Recruit_success, False), s1) \<and> funds (att s1) = 35 \<and>
     act_recruit s1 = Inr ((Recruit_success, False), s2) \<and> funds (att s2) = 20 \<and>
     act_recruit s2 = Inr ((Recruit_success, False), s3) \<and> funds (att s3) = 5 \<and>
     act_recruit s3 = Inr ((Recruit_failed, False), s3) \<and>
     members (att s3) = 4 \<and> skill (att s3) = 8 \<and>
     rng_pos s1 = 0 \<and> rng_pos s2 = 0 \<and> rng_pos s3 = 0 \<and>
     s3 = (new_game (\<lambda>_. 0))\<lparr>att := (att (new_game (\<lambda>_. 0)))\<lparr>funds := 5, members := 4, skill := 8\<rparr>\<rparr>)"
proof -
  have h: "funds (att (new_game (\<lambda>_. 0))) = 50" "members (att (new_game (\<lambda>_. 0))) = 1"
    "skill (att (new_game (\<lambda>_. 0))) = 5"
    by (simp_all add: new_game_def Attacker_init_def)
  have p: "rng_pos (new_game (\<lambda>_. 0)) = 0"
    by (simp add: new_game_def)
  show ?thesis
    using h recruit_five_times [OF h] by (simp add: p)
qed

subsection \<open>Forensic eviction (C8)\<close>

text \<open>The eviction loop in closed form, when every name it visits is in the registry.\<close>

lemma evict_closed:
  "set xs \<subseteq> dom (nodes s) \<Longrightarrow>
   evict xs s r =
     Inr (s\<lparr>nodes := (\<lambda>k. if k \<in> set xs then map_option (\<lambda>d. d\<lparr>is_compromised := False\<rparr>) (nodes s k) else nodes s k),
            att := (att s)\<lparr>compromised := compromised (att s) - set xs\<rparr>\<rparr>,
          r @ xs)"
proof (induction xs arbitrary: s r)
  case Nil
  then show ?case by simp
next
  case (Cons x xs)
  from Cons.prems obtain d where d: "nodes s x = Some d" by auto
  let ?s1 = "s\<lparr>nodes := (nodes s)(x \<mapsto> d\<lparr>is_compromised := False\<rparr>),
                att := (att s)\<lparr>compromised := compromised (att s) - {x}\<rparr>\<rparr>"
  have sub: "set xs \<subseteq> dom (nodes ?s1)" using Cons.prems by auto
  have n: "(\<lambda>k. if k \<in> set xs then map_option (\<lambda>d. d\<lparr>is_compromised := False\<rparr>) (nodes ?s1 k) else nodes ?s1 k)
      = (\<lambda>k. if k \<in> set (x # xs) then map_option (\<lambda>d. d\<lparr>is_compromised := False\<rparr>) (nodes s k) else nodes s k)"
    using d by (auto simp: fun_eq_iff)
  have c: "compromised (att s) - {x} - set xs = compromised (att s) - set (x # xs)"
    by auto
  show ?case
    using d n c by (simp add: Cons.IH [OF sub])
qed




subsection \<open>Bounds kept by every operation (C6)\<close>

lemma py_int_nonneg: "0 \<le> x \<Longrightarrow> 0 \<le> py_int x"
  by (simp add: py_int_def)

lemma patch_level_read_le: "\<forall>k v. patch_level (dfn s) k = Some v \<longrightarrow> v \<le> 10 \<Longrightarrow> fst (patch_level_read k s) \<le> 10"
  by (simp add: fst_patch_level_read split: option.splits)

lemma bounds_recon:
  assumes "bounds_ok s" "registry_ok s" "act_recon s n = Inr (md, s')"
  shows "bounds_ok s' \<and> registry_ok s' \<and> exfiltrated_value (att s) \<le> exfiltrated_value (att s')"
  using assms patch_level_read_le[of s n]
  by (auto simp: bounds_ok_def registry_ok_def act_recon_def split_def Let_def split: option.splits if_splits)

lemma bounds_social:
  assumes "bounds_ok s" "registry_ok s" "act_social s n = Inr (md, s')"
  shows "bounds_ok s' \<and> registry_ok s' \<and> exfiltrated_value (att s) \<le> exfiltrated_value (att s')"
  using assms patch_level_read_le[of s n]
  by (auto simp: bounds_ok_def registry_ok_def act_social_def split_def Let_def split: option.splits if_splits)

lemma bounds_recruit:
  assumes "bounds_ok s" "registry_ok s" "act_recruit s = Inr (md, s')"
  shows "bounds_ok s' \<and> registry_ok s' \<and> exfiltrated_value (att s) \<le> exfiltrated_value (att s')"
  using assms
  by (auto simp: bounds_ok_def registry_ok_def act_recruit_def split_def Let_def split: option.splits if_splits)

lemma bounds_exploit:
  assumes "bounds_ok s" "registry_ok s" "act_exploit s n = Inr (md, s')"
  shows "bounds_ok s' \<and> registry_ok s' \<and> exfiltrated_value (att s) \<le> exfiltrated_value (att s')"
  using assms patch_level_read_le[of s n]
  by (auto simp: bounds_ok_def registry_ok_def act_exploit_def split_def Let_def split: option.splits if_splits)

lemma bounds_lateral:
  assumes "bounds_ok s" "registry_ok s" "act_lateral s src n = Inr (md, s')"
  shows "bounds_ok s' \<and> registry_ok s' \<and> exfiltrated_value (att s) \<le> exfiltrated_value (att s')"
  using assms patch_level_read_le[of s n]
  by (auto simp: bounds_ok_def registry_ok_def act_lateral_def split_def Let_def split: option.splits if_splits)

lemma gained_nonneg:
  "0 \<le> v \<Longrightarrow> 0 \<le> r \<Longrightarrow> 0 \<le> py_int (rat_of_int v * (1 / 2 + r / 2))"
  by (intro py_int_nonneg mult_nonneg_nonneg) auto

lemma bounds_exfiltrate:
  assumes "bounds_ok s" "registry_ok s" "act_exfiltrate s n = Inr (md, s')"
  shows "bounds_ok s' \<and> registry_ok s' \<and> exfiltrated_value (att s) \<le> exfiltrated_value (att s')"
  using assms patch_level_read_le[of s n]
  by (auto simp: bounds_ok_def registry_ok_def act_exfiltrate_def split_def Let_def
      simp: gained_nonneg split: option.splits if_splits)

lemma bounds_harden:
  assumes "bounds_ok s" "registry_ok s" "act_harden s n = Inr (md, s')"
  shows "bounds_ok s' \<and> registry_ok s' \<and> exfiltrated_value (att s) \<le> exfiltrated_value (att s')"
  using assms
  by (auto simp: bounds_ok_def registry_ok_def act_harden_def split: if_splits)

lemma bounds_dispatch:
  assumes "bounds_ok s" "registry_ok s" "attacker_dispatch a s = Inr (md, s')"
  shows "bounds_ok s' \<and> registry_ok s' \<and> exfiltrated_value (att s) \<le> exfiltrated_value (att s')"
  using assms
  by (cases a)
     (auto dest: bounds_recon bounds_social bounds_recruit bounds_exploit bounds_lateral
        bounds_exfiltrate bounds_harden)

lemma bounds_pulse:
  "bounds_ok s \<Longrightarrow> bounds_ok (detection_pulse det s)"
  "registry_ok (detection_pulse det s) = registry_ok s"
  "att (detection_pulse det s) = att s"
  by (auto simp: bounds_ok_def registry_ok_def detection_pulse_def)

lemma bounds_attacker:
  assumes "bounds_ok s" "registry_ok s" "resolve_attacker_action a s = Inr (m, s')"
  shows "bounds_ok s' \<and> registry_ok s' \<and> exfiltrated_value (att s) \<le> exfiltrated_value (att s')"
proof -
  from assms(3) obtain det s1 where d: "attacker_dispatch a s = Inr ((m, det), s1)"
    and s': "s' = detection_pulse det s1"
    by (auto simp: resolve_attacker_action_def split: sum.splits)
  from bounds_dispatch[OF assms(1,2) d] show ?thesis
    by (simp add: s' bounds_pulse)
qed


lemma evict_Inr_known: "evict xs s r = Inr (s', r') \<Longrightarrow> set xs \<subseteq> dom (nodes s)"
proof (induction xs arbitrary: s r)
  case Nil
  then show ?case by simp
next
  case (Cons x xs)
  from Cons.prems obtain d where d: "nodes s x = Some d"
    by (cases "nodes s x") auto
  let ?s1 = "s\<lparr>nodes := (nodes s)(x \<mapsto> d\<lparr>is_compromised := False\<rparr>),
                att := (att s)\<lparr>compromised := compromised (att s) - {x}\<rparr>\<rparr>"
  from Cons.prems d have "evict xs ?s1 (r @ [x]) = Inr (s', r')" by simp
  from Cons.IH [OF this] have "set xs \<subseteq> insert x (dom (nodes s))"
    by (auto split: if_splits)
  with d show ?case by auto
qed

lemma evict_Inr:
  assumes "evict xs s r = Inr (s', r')"
  shows "s' = s\<lparr>nodes := (\<lambda>k. if k \<in> set xs then map_option (\<lambda>d. d\<lparr>is_compromised := False\<rparr>) (nodes s k) else nodes s k),
            att := (att s)\<lparr>compromised := compromised (att s) - set xs\<rparr>\<rparr>" and "r' = r @ xs"
  using assms evict_closed [OF evict_Inr_known [OF assms], of r] by simp_all

lemma bounds_nodes_cleared:
  "bounds_ok (s\<lparr>nodes := (\<lambda>k. if k \<in> X then map_option (\<lambda>d. d\<lparr>is_compromised := False\<rparr>) (nodes s k) else nodes s k)\<rparr>) = bounds_ok s"
  "registry_ok (s\<lparr>nodes := (\<lambda>k. if k \<in> X then map_option (\<lambda>d. d\<lparr>is_compromised := False\<rparr>) (nodes s k) else nodes s k)\<rparr>) = registry_ok s"
  by (auto simp: bounds_ok_def registry_ok_def split: if_splits)

lemma bounds_patch:
  assumes "bounds_ok s" "registry_ok s" "def_patch s n = Inr (m, s')"
  shows "bounds_ok s' \<and> registry_ok s' \<and> exfiltrated_value (att s) \<le> exfiltrated_value (att s')"
proof (cases "budget (dfn s) < 8")
  case True
  with assms show ?thesis by (simp add: def_patch_def)
next
  case False
  with assms(3) obtain d where d: "nodes s n = Some d"
    by (auto simp: def_patch_def split_def Let_def split: option.splits)
  from assms(1) d have "exposure d \<le> 1" by (auto simp: bounds_ok_def)
  then have e: "exposure d - 3 / 20 \<le> 1" by simp
  show ?thesis
    using assms False d e
    by (auto simp: bounds_ok_def registry_ok_def def_patch_def split_def Let_def
        split: option.splits if_splits)
qed

lemma bounds_monitor:
  assumes "bounds_ok s" "registry_ok s" "def_monitor s = Inr (m, s')"
  shows "bounds_ok s' \<and> registry_ok s' \<and> exfiltrated_value (att s) \<le> exfiltrated_value (att s')"
  using assms
  by (auto simp: bounds_ok_def registry_ok_def def_monitor_def Let_def split: if_splits)

lemma bounds_awareness:
  assumes "bounds_ok s" "registry_ok s" "def_awareness s = Inr (m, s')"
  shows "bounds_ok s' \<and> registry_ok s' \<and> exfiltrated_value (att s) \<le> exfiltrated_value (att s')"
  using assms
  by (auto simp: bounds_ok_def registry_ok_def def_awareness_def Let_def split: if_splits)

lemma bounds_isolate:
  assumes "bounds_ok s" "registry_ok s" "def_isolate s n = Inr (m, s')"
  shows "bounds_ok s' \<and> registry_ok s' \<and> exfiltrated_value (att s) \<le> exfiltrated_value (att s')"
  using assms
  by (auto simp: bounds_ok_def registry_ok_def def_isolate_def Let_def split: option.splits if_splits)

lemma bounds_honeypot:
  assumes "bounds_ok s" "registry_ok s" "def_honeypot s n = Inr (m, s')"
  shows "bounds_ok s' \<and> registry_ok s' \<and> exfiltrated_value (att s) \<le> exfiltrated_value (att s')"
  using assms
  by (auto simp: bounds_ok_def registry_ok_def def_honeypot_def Let_def split: if_splits)

lemma bounds_forensic:
  assumes "bounds_ok s" "registry_ok s" "def_forensic listing s = Inr (m, s')"
  shows "bounds_ok s' \<and> registry_ok s' \<and> exfiltrated_value (att s) \<le> exfiltrated_value (att s')"
proof (cases "budget (dfn s) < 10")
  case True
  with assms show ?thesis by (simp add: def_forensic_def)
next
  case False
  let ?s2 = "s\<lparr>dfn := (dfn s)\<lparr>budget := budget (dfn s) - 10\<rparr>, rng_pos := Suc (rng_pos s)\<rparr>"
  have b2: "bounds_ok ?s2" "registry_ok ?s2"
    using assms(1,2) by (simp_all add: bounds_ok_def registry_ok_def)
  from assms(3) False consider
      (none) "s' = ?s2"
    | (evicted) xs s3 removed where "evict xs ?s2 [] = Inr (s3, removed)"
        "s' = s3\<lparr>att := (att s3)\<lparr>funds := max 0 (funds (att s3) - 10),
                                    skill := max 1 (skill (att s3) - 5 / 10)\<rparr>\<rparr>"
    by (auto simp: def_forensic_def Let_def split_def split: if_splits sum.splits)
  then show ?thesis
  proof cases
    case none
    with b2 show ?thesis by simp
  next
    case evicted
    from evict_Inr(1) [OF evicted(1)] b2 bounds_nodes_cleared [of "set xs" ?s2]
    have "bounds_ok s3" "registry_ok s3" "exfiltrated_value (att s3) = exfiltrated_value (att s)"
      by (simp_all add: bounds_ok_def registry_ok_def)
    then show ?thesis
      by (simp add: evicted(2) bounds_ok_def registry_ok_def)
  qed
qed

lemma bounds_defender:
  assumes "bounds_ok s" "registry_ok s" "resolve_defender_action d listing s = Inr (m, s')"
  shows "bounds_ok s' \<and> registry_ok s' \<and> exfiltrated_value (att s) \<le> exfiltrated_value (att s')"
  using assms
  by (cases d)
     (auto dest: bounds_patch bounds_monitor bounds_awareness bounds_isolate bounds_honeypot
        bounds_forensic)


lemma bounds_run:
  assumes "bounds_ok s" "registry_ok s" "resolve_actions acts s = Inr s'"
  shows "bounds_ok s' \<and> registry_ok s' \<and> exfiltrated_value (att s) \<le> exfiltrated_value (att s')"
  using assms
proof (induction acts s rule: resolve_actions.induct)
  case (1 s)
  then show ?case by simp
next
  case (2 a rest s)
  from "2.prems" obtain m s1 where r: "resolve_attacker_action a s = Inr (m, s1)"
    and rest: "resolve_actions rest s1 = Inr s'"
    by (auto split: sum.splits)
  from bounds_attacker [OF "2.prems"(1,2) r] "2.IH" [OF r refl _ _ rest] show ?case by force
next
  case (3 d listing rest s)
  from "3.prems" obtain m s1 where r: "resolve_defender_action d listing s = Inr (m, s1)"
    and rest: "resolve_actions rest s1 = Inr s'"
    by (auto split: sum.splits)
  from bounds_defender [OF "3.prems"(1,2) r] "3.IH" [OF r refl _ _ rest] show ?case by force
qed

lemma new_game_bounds:
  "bounds_ok (new_game ds)" "registry_ok (new_game ds) = (\<forall>i. 0 \<le> ds i \<and> ds i < 1)"
  by (auto simp: bounds_ok_def registry_ok_def config_defs split: if_splits)

lemma foothold_game_bounds: "bounds_ok foothold_game" "registry_ok foothold_game"
  by (auto simp: bounds_ok_def registry_ok_def foothold_game_def config_defs split: if_splits)

lemmas prim_defs =
  random_random_def random_uniform_def patch_level_read_def chance_success_def
  detection_check_def detection_pulse_def

text \<open>
  C6. Every engine operation preserves the bounds: from a state within the bounds, every
  attacker action and every defender action that returns leaves \<open>exfiltrated_value\<close> no
  smaller, every stored patch level at most 10, monitoring within \<open>[1, 3]\<close> (the detection
  pulse of \<open>resolve_attacker_action\<close> included) and every exposure within \<open>[0, 1]\<close>. Node
  values are non-negative and draws lie in \<open>[0, 1)\<close>, which the operations also preserve.
  The same therefore holds from the start to the end of any sequence of resolved actions.
\<close>

theorem engine_preserves_bounds:
  assumes "bounds_ok s" and "registry_ok s"
  shows "(resolve_attacker_action a s = Inr (m, s') \<longrightarrow>
           bounds_ok s' \<and> registry_ok s' \<and>
           exfiltrated_value (att s) \<le> exfiltrated_value (att s')) \<and>
         (resolve_defender_action d listing s = Inr (m, s') \<longrightarrow>
           bounds_ok s' \<and> registry_ok s' \<and>
           exfiltrated_value (att s) \<le> exfiltrated_value (att s')) \<and>
         (resolve_actions acts s = Inr s'' \<longrightarrow>
           bounds_ok s'' \<and> registry_ok s'' \<and>
           exfiltrated_value (att s) \<le> exfiltrated_value (att s''))"
  using bounds_attacker [OF assms] bounds_defender [OF assms] bounds_run [OF assms] by blast

theorem engine_preserves_bounds_witness:
  "bounds_ok foothold_game \<and> registry_ok foothold_game \<and>
   (\<exists>m s'. resolve_attacker_action (Exfiltrate ''Admin'') foothold_game = Inr (m, s') \<and>
      bounds_ok s' \<and> registry_ok s' \<and>
      exfiltrated_value (att foothold_game) = 0 \<and> exfiltrated_value (att s') = 15 \<and>
      monitoring (dfn s') = 11 / 10) \<and>
   (\<exists>m s'. resolve_defender_action (Patch ''Admin'') [] foothold_game = Inr (m, s') \<and>
      bounds_ok s' \<and> registry_ok s' \<and>
      patch_level (dfn s') ''Admin'' = Some 2 \<and>
      map_option exposure (nodes s' ''Admin'') = Some (15 / 100))"
proof -
  note b = foothold_game_bounds
  obtain m1 s1 where r1: "resolve_attacker_action (Exfiltrate ''Admin'') foothold_game = Inr (m1, s1)"
    and v1: "exfiltrated_value (att foothold_game) = 0" "exfiltrated_value (att s1) = 15"
      "monitoring (dfn s1) = 11 / 10"
    by (simp add: resolve_attacker_action_def act_exfiltrate_def foothold_game_def config_defs
        prim_defs py_int_def Let_def)
  obtain m2 s2 where r2: "resolve_defender_action (Patch ''Admin'') [] foothold_game = Inr (m2, s2)"
    and v2: "patch_level (dfn s2) ''Admin'' = Some 2"
      "map_option exposure (nodes s2 ''Admin'') = Some (15 / 100)"
    by (simp add: def_patch_def foothold_game_def config_defs prim_defs Let_def)
  from engine_preserves_bounds [OF b, of "Exfiltrate ''Admin''" m1 s1] r1
  have b1: "bounds_ok s1 \<and> registry_ok s1" by simp
  from engine_preserves_bounds [OF b, of _ _ _ "Patch ''Admin''" "[]"] r2
  have b2: "bounds_ok s2 \<and> registry_ok s2" by blast
  from b r1 v1 b1 r2 v2 b2 show ?thesis by blast
qed

subsection \<open>The isolated set only grows (C10)\<close>

lemma isolated_dispatch:
  "attacker_dispatch a s = Inr (md, s') \<Longrightarrow> isolated (dfn s') = isolated (dfn s)"
  by (cases a)
     (auto simp: act_defs split_def Let_def split: option.splits if_splits)

lemma isolated_attacker:
  assumes "resolve_attacker_action a s = Inr (m, s')"
  shows "isolated (dfn s') = isolated (dfn s)"
proof -
  from assms obtain det s1 where d: "attacker_dispatch a s = Inr ((m, det), s1)"
    and s': "s' = detection_pulse det s1"
    by (auto simp: resolve_attacker_action_def split: sum.splits)
  from isolated_dispatch [OF d] show ?thesis
    by (simp add: s' detection_pulse_def)
qed

lemma isolated_forensic:
  assumes "def_forensic listing s = Inr (m, s')"
  shows "isolated (dfn s') = isolated (dfn s)"
proof -
  let ?s2 = "s\<lparr>dfn := (dfn s)\<lparr>budget := budget (dfn s) - 10\<rparr>, rng_pos := Suc (rng_pos s)\<rparr>"
  from assms consider
      (same) "s' = s" | (none) "s' = ?s2"
    | (evicted) xs s3 removed where "evict xs ?s2 [] = Inr (s3, removed)"
        "s' = s3\<lparr>att := (att s3)\<lparr>funds := max 0 (funds (att s3) - 10),
                                    skill := max 1 (skill (att s3) - 5 / 10)\<rparr>\<rparr>"
    by (auto simp: def_forensic_def Let_def split_def split: if_splits sum.splits)
  then show ?thesis
  proof cases
    case evicted
    from evict_Inr(1) [OF evicted(1)] show ?thesis by (simp add: evicted(2))
  qed simp_all
qed

lemma isolated_defender:
  assumes "resolve_defender_action d listing s = Inr (m, s')"
  shows "isolated (dfn s') =
     (case d of
        Isolate n \<Rightarrow> if budget (dfn s) < 12 then isolated (dfn s) else insert n (isolated (dfn s))
      | _ \<Rightarrow> isolated (dfn s))"
proof (cases d)
  case Forensic
  with assms isolated_forensic show ?thesis by simp
next
  case (Patch n)
  with assms show ?thesis
    by (auto simp: def_patch_def split_def Let_def split: option.splits if_splits)
qed (use assms in \<open>auto simp: def_monitor_def def_awareness_def def_isolate_def def_honeypot_def
      Let_def split: option.splits if_splits\<close>)

lemma isolated_run:
  "resolve_actions acts s = Inr s' \<Longrightarrow> isolated (dfn s) \<subseteq> isolated (dfn s')"
proof (induction acts s rule: resolve_actions.induct)
  case (1 s)
  then show ?case by simp
next
  case (2 a rest s)
  from "2.prems" obtain m s1 where r: "resolve_attacker_action a s = Inr (m, s1)"
    and rest: "resolve_actions rest s1 = Inr s'"
    by (auto split: sum.splits)
  from "2.IH" [OF r refl rest] isolated_attacker [OF r] show ?case by simp
next
  case (3 d listing rest s)
  from "3.prems" obtain m s1 where r: "resolve_defender_action d listing s = Inr (m, s1)"
    and rest: "resolve_actions rest s1 = Inr s'"
    by (auto split: sum.splits)
  from isolated_defender [OF r] have "isolated (dfn s) \<subseteq> isolated (dfn s1)"
    by (auto split: defender_action.splits if_splits)
  with "3.IH" [OF r refl rest] show ?case by blast
qed

lemmas def_defs =
  def_patch_def def_monitor_def def_awareness_def def_isolate_def def_honeypot_def
  def_forensic_def

text \<open>
  C10. \<open>DefenderState.isolated\<close> is monotone: no attacker action changes it; among the
  defender actions only \<open>def_isolate\<close> changes it, and only by adding its node (when the
  budget covers the cost of 12); so over any sequence of resolved actions the isolated set
  at the end contains the isolated set at the start.
\<close>

theorem isolated_only_grows:
  "(resolve_attacker_action a s = Inr (m, s') \<longrightarrow> isolated (dfn s') = isolated (dfn s)) \<and>
   (resolve_defender_action d listing s = Inr (m, s') \<longrightarrow>
      isolated (dfn s') =
        (case d of
           Isolate n \<Rightarrow>
             if budget (dfn s) < 12 then isolated (dfn s) else insert n (isolated (dfn s))
         | _ \<Rightarrow> isolated (dfn s))) \<and>
   (resolve_actions acts s = Inr s'' \<longrightarrow> isolated (dfn s) \<subseteq> isolated (dfn s''))"
  using isolated_attacker isolated_defender isolated_run by blast

theorem isolated_only_grows_witness:
  "(\<exists>m s'. resolve_attacker_action (Exploit ''Firewall'') (new_game (\<lambda>_. 0)) = Inr (m, s') \<and>
      isolated (dfn s') = isolated (dfn (new_game (\<lambda>_. 0)))) \<and>
   (\<exists>m s'. resolve_defender_action (Isolate ''DMZ'') [] (new_game (\<lambda>_. 0)) = Inr (m, s') \<and>
      isolated (dfn (new_game (\<lambda>_. 0))) = {} \<and> isolated (dfn s') = {''DMZ''}) \<and>
   (\<exists>s''. resolve_actions
            [Attacker_action (Exploit ''DMZ''), Attacker_action Social,
             Defender_action Forensic [''Insider''], Defender_action Monitor []]
            example_game = Inr s'' \<and>
      isolated (dfn example_game) = {''DMZ''} \<and> isolated (dfn example_game) \<subseteq> isolated (dfn s''))"
proof -
  obtain m1 s1 where
    r1: "resolve_attacker_action (Exploit ''Firewall'') (new_game (\<lambda>_. 0)) = Inr (m1, s1)"
    by (simp add: resolve_attacker_action_def act_exploit_def config_defs prim_defs Let_def)
  obtain m2 s2 where
    r2: "resolve_defender_action (Isolate ''DMZ'') [] (new_game (\<lambda>_. 0)) = Inr (m2, s2)"
    by (simp add: def_isolate_def config_defs Let_def)
  have i0: "isolated (dfn (new_game (\<lambda>_. 0))) = {}" "budget (dfn (new_game (\<lambda>_. 0))) = 60"
    by (simp_all add: config_defs)
  obtain s3 where
    r3: "resolve_actions
            [Attacker_action (Exploit ''DMZ''), Attacker_action Social,
             Defender_action Forensic [''Insider''], Defender_action Monitor []]
            example_game = Inr s3"
    by (simp add: resolve_attacker_action_def act_exploit_def act_social_def def_defs
        example_game_def config_defs prim_defs Let_def)
  have i3: "isolated (dfn example_game) = {''DMZ''}"
    by (simp add: example_game_def config_defs)
  note t = isolated_only_grows
    [where a = "Exploit ''Firewall''" and s = "new_game (\<lambda>_. 0)" and m = m1 and s' = s1]
  note u = isolated_only_grows
    [where d = "Isolate ''DMZ''" and listing = "[]" and s = "new_game (\<lambda>_. 0)" and m = m2
       and s' = s2]
  note v = isolated_only_grows
    [where s = example_game and s'' = s3 and acts =
      "[Attacker_action (Exploit ''DMZ''), Attacker_action Social,
        Defender_action Forensic [''Insider''], Defender_action Monitor []]"]
  from t r1 have a: "isolated (dfn s1) = isolated (dfn (new_game (\<lambda>_. 0)))" by blast
  from u r2 i0 have b: "isolated (dfn s2) = {''DMZ''}" by simp
  from v r3 have c: "isolated (dfn example_game) \<subseteq> isolated (dfn s3)" by blast
  from r1 a r2 i0 b r3 i3 c show ?thesis by blast
qed

subsection \<open>What isolation blocks (C9)\<close>

lemma fst_chance_success:
  "fst (chance_success b sk pl m s) = success_roll b sk pl m (rng_draws s (rng_pos s))"
  by (simp add: chance_success_def success_roll_def random_random_def Let_def)

lemma fst_detection_check:
  "fst (detection_check b mon st s) = detection_roll b mon st (rng_draws s (rng_pos s))"
  by (simp add: detection_check_def detection_roll_def random_random_def Let_def)

lemmas roll_simps = fst_chance_success fst_detection_check fst_patch_level_read

lemma isolated_irrelevant_dispatch:
  assumes "\<forall>t. a \<noteq> Exploit t"
  shows "attacker_dispatch a (s\<lparr>dfn := (dfn s)\<lparr>isolated := I\<rparr>\<rparr>) =
     map_sum id (map_prod id (\<lambda>s'. s'\<lparr>dfn := (dfn s')\<lparr>isolated := I\<rparr>\<rparr>)) (attacker_dispatch a s)"
  using assms
  by (cases a)
     (simp_all add: act_defs roll_simps Let_def split_def split: option.splits)

lemma pulse_isolated:
  "detection_pulse det (s\<lparr>dfn := (dfn s)\<lparr>isolated := I\<rparr>\<rparr>) =
     (detection_pulse det s)\<lparr>dfn := (dfn (detection_pulse det s))\<lparr>isolated := I\<rparr>\<rparr>"
  by (simp add: detection_pulse_def)

lemma isolated_irrelevant_resolve:
  assumes "\<forall>t. a \<noteq> Exploit t"
  shows "resolve_attacker_action a (s\<lparr>dfn := (dfn s)\<lparr>isolated := I\<rparr>\<rparr>) =
     map_sum id (map_prod id (\<lambda>s'. s'\<lparr>dfn := (dfn s')\<lparr>isolated := I\<rparr>\<rparr>)) (resolve_attacker_action a s)"
  unfolding resolve_attacker_action_def isolated_irrelevant_dispatch [OF assms]
  by (cases "attacker_dispatch a s") (auto simp: pulse_isolated)

lemma social_success:
  assumes "act_social s n = Inr ((Social_result n True p det dp, det'), s')"
  shows "isolated (dfn s') = isolated (dfn s) \<and> n \<in> compromised (att s') \<and>
     map_option is_compromised (nodes s' n) = Some True"
  using assms
  by (auto simp: act_social_def split_def Let_def split: option.splits if_splits)

lemma lateral_success:
  assumes "act_lateral s src dst = Inr ((Lateral_result src dst True p det dp, det'), s')"
  shows "isolated (dfn s') = isolated (dfn s) \<and> dst \<in> compromised (att s') \<and>
     map_option is_compromised (nodes s' dst) = Some True"
  using assms
  by (auto simp: act_lateral_def split_def Let_def split: option.splits if_splits)


text \<open>
  C9. Isolation blocks only \<open>act_exploit\<close>. No attacker action other than exploit reads the
  isolated set: replacing it by any set \<open>I\<close> changes nothing in the result but that field.
  In particular a successful \<open>act_social\<close> on an isolated node, and a successful
  \<open>act_lateral\<close> into an isolated destination, still set the node's flag and add it to the
  attacker's compromised set, and the node stays isolated.
\<close>

theorem isolation_blocks_only_exploit:
  "((\<forall>t. a \<noteq> Exploit t) \<longrightarrow>
      resolve_attacker_action a (s\<lparr>dfn := (dfn s)\<lparr>isolated := I\<rparr>\<rparr>) =
        map_sum id (map_prod id (\<lambda>s'. s'\<lparr>dfn := (dfn s')\<lparr>isolated := I\<rparr>\<rparr>))
          (resolve_attacker_action a s)) \<and>
   (n \<in> isolated (dfn s) \<and>
    act_social s n = Inr ((Social_result n True p det dp, det'), s') \<longrightarrow>
      n \<in> isolated (dfn s') \<and> n \<in> compromised (att s') \<and>
      map_option is_compromised (nodes s' n) = Some True) \<and>
   (dst \<in> isolated (dfn s) \<and>
    act_lateral s src dst = Inr ((Lateral_result src dst True p2 det2 dp2, det2'), s2) \<longrightarrow>
      dst \<in> isolated (dfn s2) \<and> dst \<in> compromised (att s2) \<and>
      map_option is_compromised (nodes s2 dst) = Some True)"
  using isolated_irrelevant_resolve [where a = a and s = s and I = I]
    social_success [where s = s and n = n and p = p and det = det and dp = dp and det' = det'
      and s' = s']
    lateral_success [where s = s and src = src and dst = dst and p = p2 and det = det2
      and dp = dp2 and det' = det2' and s' = s2]
  by simp

theorem isolation_blocks_only_exploit_witness:
  "''Insider'' \<in> isolated (dfn (example_game\<lparr>dfn := (dfn example_game)\<lparr>isolated := {''Insider''}\<rparr>\<rparr>)) \<and>
   (\<exists>p det dp s'.
      act_social (example_game\<lparr>dfn := (dfn example_game)\<lparr>isolated := {''Insider''}\<rparr>\<rparr>) ''Insider'' =
        Inr ((Social_result ''Insider'' True p det dp, det), s') \<and>
      ''Insider'' \<in> isolated (dfn s') \<and> ''Insider'' \<in> compromised (att s') \<and>
      map_option is_compromised (nodes s' ''Insider'') = Some True) \<and>
   ''DMZ'' \<in> isolated (dfn example_game) \<and>
   (\<exists>p det dp s'.
      act_lateral example_game ''Firewall'' ''DMZ'' =
        Inr ((Lateral_result ''Firewall'' ''DMZ'' True p det dp, det), s') \<and>
      ''DMZ'' \<in> isolated (dfn s') \<and> ''DMZ'' \<in> compromised (att s') \<and>
      map_option is_compromised (nodes s' ''DMZ'') = Some True) \<and>
   resolve_attacker_action Social (example_game\<lparr>dfn := (dfn example_game)\<lparr>isolated := {''Insider''}\<rparr>\<rparr>) =
     map_sum id (map_prod id (\<lambda>s'. s'\<lparr>dfn := (dfn s')\<lparr>isolated := {''Insider''}\<rparr>\<rparr>))
       (resolve_attacker_action Social example_game)"
proof -
  let ?sI = "example_game\<lparr>dfn := (dfn example_game)\<lparr>isolated := {''Insider''}\<rparr>\<rparr>"
  have i1: "''Insider'' \<in> isolated (dfn ?sI)" by simp
  have i2: "''DMZ'' \<in> isolated (dfn example_game)"
    by (simp add: example_game_def config_defs)
  define p1 :: rat where "p1 = 21 / 40"
  define dp1 :: rat where "dp1 = 9 / 50"
  define det1 where "det1 = True"
  define p2 :: rat where "p2 = 39 / 50"
  define dp2 :: rat where "dp2 = 3 / 25"
  define det2 where "det2 = True"
  obtain s1 where
    r1: "act_social ?sI ''Insider'' = Inr ((Social_result ''Insider'' True p1 det1 dp1, det1), s1)"
    unfolding p1_def dp1_def det1_def
    by (simp add: act_social_def example_game_def config_defs prim_defs Let_def)
  obtain s2 where
    r2: "act_lateral example_game ''Firewall'' ''DMZ'' =
           Inr ((Lateral_result ''Firewall'' ''DMZ'' True p2 det2 dp2, det2), s2)"
    unfolding p2_def dp2_def det2_def
    by (simp add: act_lateral_def example_game_def config_defs prim_defs Let_def)
  have ne: "\<forall>t. Social \<noteq> Exploit t" by simp
  note t1 = isolation_blocks_only_exploit
    [where a = Social and s = ?sI and I = "{''Insider''}" and n = "''Insider''" and p = p1
       and det = det1 and dp = dp1 and det' = det1 and s' = s1]
  note t2 = isolation_blocks_only_exploit
    [where a = Social and s = example_game and I = "{''Insider''}" and dst = "''DMZ''"
       and src = "''Firewall''" and ?p2.0 = p2 and ?det2.0 = det2 and ?dp2.0 = dp2
       and det2' = det2 and ?s2.0 = s2]
  from t1 i1 r1 have c1: "''Insider'' \<in> isolated (dfn s1) \<and> ''Insider'' \<in> compromised (att s1) \<and>
      map_option is_compromised (nodes s1 ''Insider'') = Some True" by blast
  from t2 i2 r2 have c2: "''DMZ'' \<in> isolated (dfn s2) \<and> ''DMZ'' \<in> compromised (att s2) \<and>
      map_option is_compromised (nodes s2 ''DMZ'') = Some True" by blast
  from t2 ne have c3: "resolve_attacker_action Social ?sI =
     map_sum id (map_prod id (\<lambda>s'. s'\<lparr>dfn := (dfn s')\<lparr>isolated := {''Insider''}\<rparr>\<rparr>))
       (resolve_attacker_action Social example_game)" by blast
  from i1 r1 c1 i2 r2 c2 c3 show ?thesis by blast
qed

subsection \<open>Node names outside the registry (C4)\<close>





subsection \<open>Names of the registry never raise\<close>

text \<open>
  With names of the registry the resolvers always return: no attacker action raises when
  its target (for lateral, its destination; for social, the Insider) is a registry key and
  awareness is not zero, and no defender action raises when its target, or for forensic
  every listed name, is a registry key.
\<close>

lemma attacker_action_returns:
  assumes "case a of
             Recon n \<Rightarrow> n \<in> dom (nodes s)
           | Social \<Rightarrow> ''Insider'' \<in> dom (nodes s) \<and> awareness (dfn s) \<noteq> 0
           | Exploit n \<Rightarrow> n \<in> dom (nodes s)
           | Lateral src dst \<Rightarrow> dst \<in> dom (nodes s)
           | Exfiltrate n \<Rightarrow> n \<in> dom (nodes s)
           | _ \<Rightarrow> True"
  shows "\<exists>m s'. resolve_attacker_action a s = Inr (m, s')"
  using assms
  by (cases a)
     (auto simp: resolve_attacker_action_def act_defs split_def Let_def)

lemma defender_action_returns:
  assumes "case d of
             Patch n \<Rightarrow> n \<in> dom (nodes s)
           | Isolate n \<Rightarrow> n \<in> dom (nodes s)
           | Forensic \<Rightarrow> set listing \<subseteq> dom (nodes s)
           | _ \<Rightarrow> True"
  shows "\<exists>m s'. resolve_defender_action d listing s = Inr (m, s')"
proof (cases d)
  case Forensic
  with assms have sub: "set listing \<subseteq> dom (nodes s)" by simp
  let ?xs = "take (nat (max 1 (int (card (compromised (att s))) div 2))) listing"
  let ?s2 = "s\<lparr>dfn := (dfn s)\<lparr>budget := budget (dfn s) - 10\<rparr>, rng_pos := Suc (rng_pos s)\<rparr>"
  have "set ?xs \<subseteq> dom (nodes ?s2)"
    using sub set_take_subset [of _ listing] by fastforce
  from evict_closed [OF this, of "[]"] obtain r where "evict ?xs ?s2 [] = Inr r"
    by blast
  then show ?thesis
    using Forensic
    by (auto simp: def_forensic_def Let_def split_def split: sum.splits)
qed (use assms in \<open>auto simp: def_patch_def def_monitor_def def_awareness_def def_isolate_def
      def_honeypot_def split_def Let_def\<close>)

subsection \<open>Set/flag consistency and isolation (C1, C2)\<close>

text \<open>
  Every attacker action keeps the flags and the compromised set consistent, and so does
  every defender action except a paid \<open>def_isolate\<close> of a compromised node:
  \<open>def_isolate\<close> never writes the attacker's state.
\<close>

lemma consistent_dispatch:
  assumes "flags_consistent s" "attacker_dispatch a s = Inr (md, s')"
  shows "flags_consistent s'"
  using assms
  by (cases a)
     (auto simp: flags_consistent_def act_defs split_def Let_def split: option.splits if_splits)

lemma consistent_attacker:
  assumes "flags_consistent s" "resolve_attacker_action a s = Inr (m, s')"
  shows "flags_consistent s'"
proof -
  from assms(2) obtain det s1 where d: "attacker_dispatch a s = Inr ((m, det), s1)"
    and s': "s' = detection_pulse det s1"
    by (auto simp: resolve_attacker_action_def split: sum.splits)
  from consistent_dispatch [OF assms(1) d] show ?thesis
    by (simp add: s' detection_pulse_def flags_consistent_def)
qed

lemma consistent_forensic:
  assumes "flags_consistent s" "def_forensic listing s = Inr (m, s')"
  shows "flags_consistent s'"
proof -
  let ?s2 = "s\<lparr>dfn := (dfn s)\<lparr>budget := budget (dfn s) - 10\<rparr>, rng_pos := Suc (rng_pos s)\<rparr>"
  from assms(2) consider
      (same) "s' = s" | (none) "s' = ?s2"
    | (evicted) xs s3 removed where "evict xs ?s2 [] = Inr (s3, removed)"
        "s' = s3\<lparr>att := (att s3)\<lparr>funds := max 0 (funds (att s3) - 10),
                                    skill := max 1 (skill (att s3) - 5 / 10)\<rparr>\<rparr>"
    by (auto simp: def_forensic_def Let_def split_def split: if_splits sum.splits)
  then show ?thesis
  proof cases
    case evicted
    from evict_Inr(1) [OF evicted(1)] assms(1) show ?thesis
      by (auto simp: evicted(2) flags_consistent_def split: if_splits)
  qed (use assms(1) in \<open>simp_all add: flags_consistent_def\<close>)
qed

lemma consistent_defender:
  assumes "flags_consistent s" "resolve_defender_action d listing s = Inr (m, s')"
    and "\<forall>n. d = Isolate n \<longrightarrow> n \<notin> compromised (att s) \<or> budget (dfn s) < 12"
  shows "flags_consistent s'"
proof (cases d)
  case Forensic
  with assms consistent_forensic show ?thesis by simp
next
  case (Patch n)
  with assms show ?thesis
    by (auto simp: flags_consistent_def def_patch_def split_def Let_def
        split: option.splits if_splits)
next
  case (Isolate n)
  with assms show ?thesis
    by (auto simp: flags_consistent_def def_isolate_def Let_def split: option.splits if_splits)
qed (use assms in \<open>auto simp: flags_consistent_def def_monitor_def def_awareness_def
      def_honeypot_def Let_def split: if_splits\<close>)

lemma isolate_keeps_attacker:
  "def_isolate s n = Inr (m, s') \<Longrightarrow> att s' = att s"
  by (auto simp: def_isolate_def Let_def split: option.splits if_splits)

lemma isolate_clears_flag:
  assumes "12 \<le> budget (dfn s)" "nodes s n = Some d"
  shows "def_isolate s n =
     Inr (Isolate_success n,
          s\<lparr>dfn := (dfn s)\<lparr>budget := budget (dfn s) - 12, isolated := insert n (isolated (dfn s))\<rparr>,
             nodes := (nodes s)(n \<mapsto> d\<lparr>is_compromised := False\<rparr>)\<rparr>)"
  using assms by (auto simp: def_isolate_def Let_def map_upd_triv)

text \<open>
  C1. After every resolved action each registry node's flag should equal its membership in
  \<open>AttackerState.compromised\<close>. Evaluated on the code: in a new game the attacker
  exploits the Firewall (flags and set agree: only the Firewall is compromised); the
  defender then isolates the Firewall, after which the Firewall's flag is cleared while its
  name is still in the attacker's compromised set.
\<close>

theorem isolate_breaks_consistency:
  "\<exists>m1 s1 m2 s2.
     resolve_attacker_action (Exploit ''Firewall'') (new_game (\<lambda>_. 0)) = Inr (m1, s1) \<and>
     compromised (att s1) = {''Firewall''} \<and>
     map (\<lambda>n. map_option is_compromised (nodes s1 n))
       [''Internet'', ''Firewall'', ''DMZ'', ''CorpLAN'', ''Admin'', ''SIEM'', ''Insider''] =
       [Some False, Some True, Some False, Some False, Some False, Some False, Some False] \<and>
     resolve_defender_action (Isolate ''Firewall'') [''Firewall''] s1 = Inr (m2, s2) \<and>
     map_option is_compromised (nodes s2 ''Firewall'') = Some False \<and>
     ''Firewall'' \<in> compromised (att s2)"
  by (simp add: resolve_attacker_action_def act_exploit_def def_isolate_def config_defs prim_defs
      Let_def)

text \<open>
  C2. Isolating a compromised node with sufficient budget should clear its flag and remove
  it from the attacker's compromised set, and a later exploit on it is aborted without a
  draw. Evaluated on the code, with the Firewall compromised: \<open>def_isolate\<close> clears the
  flag and a later exploit is aborted with the state unchanged, but the compromised set is
  still \<open>{Firewall}\<close>, so that \<open>act_harden\<close> on the isolated Firewall passes its
  precondition and raises the attacker's skill.
\<close>

theorem isolate_keeps_membership:
  "\<exists>s' s''.
     map_option is_compromised (nodes example_game ''Firewall'') = Some True \<and>
     compromised (att example_game) = {''Firewall''} \<and>
     def_isolate example_game ''Firewall'' = Inr (Isolate_success ''Firewall'', s') \<and>
     map_option is_compromised (nodes s' ''Firewall'') = Some False \<and>
     compromised (att s') = {''Firewall''} \<and>
     ''Firewall'' \<in> isolated (dfn s') \<and>
     act_exploit s' ''Firewall'' = Inr ((Exploit_aborted ''Firewall'', False), s') \<and>
     act_harden s' ''Firewall'' = Inr ((Harden_result ''Firewall'', False), s'') \<and>
     skill (att s'') = skill (att s') + 2 / 10"
  by (simp add: act_exploit_def act_harden_def def_isolate_def example_game_def config_defs
      Let_def)

end
